theory Spec2Isabelle
  imports Main "HOL-Library.Word"
begin

section \<open>The server package of myTinyRpc\<close>

text \<open>
  A shallow embedding of \<^verbatim>\<open>server/server.go\<close> and of the declarations of
  \<^verbatim>\<open>server/service.go\<close>: the \<^verbatim>\<open>Server\<close> struct with its methods
  \<^verbatim>\<open>AddService\<close>, \<^verbatim>\<open>Service\<close>, \<^verbatim>\<open>Register\<close>, \<^verbatim>\<open>Close\<close> and
  \<^verbatim>\<open>tryClose\<close>.
\<close>

subsection \<open>Durations\<close>

text \<open>
  \<^verbatim>\<open>time.Duration\<close> is an \<^verbatim>\<open>int64\<close> counting nanoseconds; \<^verbatim>\<open>time.Second\<close> is
  \<open>10^9\<close> of them. Durations are compared as signed integers (\<open><s\<close>).
\<close>

type_synonym Duration = "64 word"

definition Second :: Duration where
  "Second = 1000000000"

text \<open>\<^verbatim>\<open>const MaxCloseWaitTime = 10 * time.Second\<close>\<close>

definition MaxCloseWaitTime :: Duration where
  "MaxCloseWaitTime = 10 * Second"

subsection \<open>Dynamic values, errors, channels\<close>

text \<open>\<^verbatim>\<open>type ServiceDesc struct { ServiceName string }\<close>\<close>

record ServiceDesc =
  ServiceName :: string

text \<open>
  A value of type \<^verbatim>\<open>interface{}\<close>, by its dynamic type: the nil interface, a
  \<^verbatim>\<open>*ServiceDesc\<close> (a pointer, which may be the nil pointer), a \<^verbatim>\<open>ServiceDesc\<close> held by
  value, or a value of any other type (named by a number).
\<close>

datatype iface =
    nil_iface
  | ServiceDesc_ptr "ServiceDesc option"
  | ServiceDesc_val ServiceDesc
  | other_val nat

text \<open>
  An \<^verbatim>\<open>error\<close> value: one made by \<^verbatim>\<open>errors.New\<close> with its message, or any other
  error value an entry may return (named by a number).
\<close>

datatype error =
    errors_New string
  | service_error nat

text \<open>
  A \<^verbatim>\<open>chan struct{}\<close> as the operations of \<^verbatim>\<open>Close\<close> meet it: \<open>chan_id\<close> tells
  which channel it is (two values with the same \<open>chan_id\<close> are one channel);
  \<open>chan_closed\<close> says that it has been closed; \<open>chan_ready\<close> says that a send on it
  completes (there is room in its buffer, or a receiver takes the value), where
  otherwise the sender blocks. A nil channel is \<open>None\<close> of \<open>chan option\<close>.
\<close>

record chan =
  chan_id :: nat
  chan_closed :: bool
  chan_ready :: bool

text \<open>
  How a call ends: it returns a value, it panics, or it blocks forever.
\<close>

datatype 'a outcome = Returns 'a | Panics | Blocks

subsection \<open>The Service interface\<close>

text \<open>
  \<^verbatim>\<open>
  type Service interface {
      Register(serviceDesc interface{}, serviceImpl interface{}) error
      Serve() error
      Close(chan struct{}) error
  }
  \<close>
  A value of the interface type is nil (\<open>None\<close>) or an implementation \<open>Some e\<close>, where
  \<open>e :: 'e\<close> names the object behind it. What the methods of the implementations do is not
  part of this package: it is a parameter of the model, a table of the three methods
  over a state \<open>'w\<close> of the world outside the server (the implementations' own state).
  An error result is \<open>Some err\<close>, the nil error is \<open>None\<close>.

  \<^verbatim>\<open>Close\<close> receives a channel made for this one call; beside its error the table tells
  after how many nanoseconds the implementation signals on that channel
  (\<open>notify_after\<close>; \<open>None\<close> when it never does).
\<close>

type_synonym 'e Service = "'e option"

record close_reply =
  close_err :: "error option"
  notify_after :: "nat option"

record ('e, 'w) methods =
  svc_Register :: "'e \<Rightarrow> iface \<Rightarrow> iface \<Rightarrow> 'w \<Rightarrow> error option \<times> 'w"
  svc_Serve :: "'e \<Rightarrow> 'w \<Rightarrow> error option \<times> 'w"
  svc_Close :: "'e \<Rightarrow> 'w \<Rightarrow> close_reply \<times> 'w"

subsection \<open>The calls the server makes\<close>

text \<open>
  The model records what the server does to the outside, in order:
  \<^item> \<open>Call_Register n e\<close>: \<^verbatim>\<open>srv.Register(desc, serviceImpl)\<close> on the entry \<open>e\<close> stored
    under the name \<open>n\<close>;
  \<^item> \<open>WithTimeout d\<close>: the closure of \<^verbatim>\<open>tryClose\<close> has started and set up its context
    with the timeout \<open>d\<close>;
  \<^item> \<open>Go_Close n srv\<close>: the closure has started the goroutine of the entry stored under
    \<open>n\<close>, in which \<^verbatim>\<open>srv.Close(c)\<close> is called (on a nil \<open>srv\<close> that call panics);
  \<^item> \<open>Select_ends n t\<close>: the \<^verbatim>\<open>select\<close> of that goroutine has ended, \<open>t\<close> nanoseconds
    after the context was set up.
\<close>

datatype 'e event =
    Call_Register string 'e
  | WithTimeout Duration
  | Go_Close string "'e Service"
  | Select_ends string nat

subsection \<open>The Server struct\<close>

text \<open>
  \<^verbatim>\<open>
  type Server struct {
      MaxCloseWaitTime time.Duration
      services         map[string]Service
      mux              sync.Mutex
      failedServices   sync.Map
      closeCh          chan struct{}
      closeOnce        sync.Once
  }
  \<close>
  The field \<^verbatim>\<open>MaxCloseWaitTime\<close> is \<open>cfg_MaxCloseWaitTime\<close> here (the package constant
  has the name). A nil map is \<open>None\<close>. Of \<^verbatim>\<open>failedServices\<close> only the keys that are
  strings are ever looked up. \<^verbatim>\<open>closeOnce\<close> is its done flag. \<^verbatim>\<open>mux\<close> is never used.
\<close>

record 'e Server =
  cfg_MaxCloseWaitTime :: Duration
  services :: "(string \<rightharpoonup> 'e Service) option"
  failedServices :: "string set"
  closeCh :: "chan option"
  closeOnce :: bool

text \<open>The zero value \<^verbatim>\<open>Server{}\<close>.\<close>

definition zero_Server :: "'e Server" where
  "zero_Server =
     \<lparr>cfg_MaxCloseWaitTime = 0, services = None, failedServices = {},
      closeCh = None, closeOnce = False\<rparr>"

text \<open>The entries of the map; a nil map has none.\<close>

definition entries :: "'e Server \<Rightarrow> (string \<rightharpoonup> 'e Service)" where
  "entries s = (case services s of None \<Rightarrow> Map.empty | Some m \<Rightarrow> m)"

subsection \<open>AddService and Service\<close>

text \<open>
  \<^verbatim>\<open>
  func (s *Server) AddService(serviceName string, service Service) {
      if s.services == nil {
          s.services = make(map[string]Service)
      }
      s.services[serviceName] = service
  }
  \<close>
\<close>

definition AddService :: "'e Server \<Rightarrow> string \<Rightarrow> 'e Service \<Rightarrow> 'e Server" where
  "AddService s serviceName service =
     (let s1 = (if services s = None then s\<lparr>services := Some Map.empty\<rparr> else s)
      in s1\<lparr>services := Some ((entries s1)(serviceName \<mapsto> service))\<rparr>)"

text \<open>
  \<^verbatim>\<open>
  func (s *Server) Service(serviceName string) Service {
      if s.services == nil {
          return nil
      }
      return s.services[serviceName]
  }
  \<close>
  Reading a key that the map does not have gives the zero value, the nil interface.
\<close>

definition Service :: "'e Server \<Rightarrow> string \<Rightarrow> 'e Service" where
  "Service s serviceName =
     (case services s of
        None \<Rightarrow> None
      | Some m \<Rightarrow> (case m serviceName of None \<Rightarrow> None | Some service \<Rightarrow> service))"

subsection \<open>Register\<close>

text \<open>
  \<^verbatim>\<open>
  for _, srv := range s.services {
      if err := srv.Register(desc, serviceImpl); err != nil {
          return err
      }
  }
  return nil
  \<close>
  Go leaves the order of a \<^verbatim>\<open>range\<close> over a map open. The model takes it as the
  argument \<open>order\<close>, the keys in the order in which this \<^verbatim>\<open>range\<close> visits them; a name
  that is not a key of the map is not visited. Calling a method on a nil interface
  value panics.
\<close>

fun Register_range ::
  "('e, 'w) methods \<Rightarrow> (string \<rightharpoonup> 'e Service) \<Rightarrow> string list \<Rightarrow> iface \<Rightarrow> iface \<Rightarrow> 'w
     \<Rightarrow> error option outcome \<times> 'w \<times> 'e event list" where
  "Register_range M m [] desc serviceImpl w = (Returns None, w, [])"
| "Register_range M m (n # ns) desc serviceImpl w =
     (case m n of
        None \<Rightarrow> Register_range M m ns desc serviceImpl w
      | Some None \<Rightarrow> (Panics, w, [])
      | Some (Some srv) \<Rightarrow>
          (case svc_Register M srv desc serviceImpl w of
             (Some err, w1) \<Rightarrow> (Returns (Some err), w1, [Call_Register n srv])
           | (None, w1) \<Rightarrow>
               (case Register_range M m ns desc serviceImpl w1 of
                  (r, w2, tr) \<Rightarrow> (r, w2, Call_Register n srv # tr))))"

text \<open>
  \<^verbatim>\<open>
  func (s *Server) Register(serviceDesc interface{}, serviceImpl interface{}) error {
      desc, ok := serviceDesc.(*ServiceDesc)
      if !ok {
          return errors.New("service desc type invalid")
      }
      ... the loop above ...
  }
  \<close>
  The type assertion holds exactly for a dynamic type \<^verbatim>\<open>*ServiceDesc\<close>, the nil pointer
  of that type included.
\<close>

definition Register ::
  "('e, 'w) methods \<Rightarrow> 'e Server \<Rightarrow> string list \<Rightarrow> iface \<Rightarrow> iface \<Rightarrow> 'w
     \<Rightarrow> error option outcome \<times> 'w \<times> 'e event list" where
  "Register M s order serviceDesc serviceImpl w =
     (case serviceDesc of
        ServiceDesc_ptr desc \<Rightarrow>
          Register_range M (entries s) order (ServiceDesc_ptr desc) serviceImpl w
      | _ \<Rightarrow> (Returns (Some (errors_New ''service desc type invalid'')), w, []))"

subsection \<open>tryClose\<close>

text \<open>
  \<^verbatim>\<open>
  closeWaitTime := s.MaxCloseWaitTime
  if closeWaitTime < MaxCloseWaitTime {
      closeWaitTime = MaxCloseWaitTime
  }
  \<close>
\<close>

definition closeWaitTime :: "'e Server \<Rightarrow> Duration" where
  "closeWaitTime s =
     (if cfg_MaxCloseWaitTime s <s MaxCloseWaitTime then MaxCloseWaitTime
      else cfg_MaxCloseWaitTime s)"

text \<open>
  \<^verbatim>\<open>
  for name, service := range s.services {
      if _, ok := s.failedServices.Load(name); ok {
          continue
      }
      wg.Add(1)
      go func(srv Service) {
          defer wg.Done()
          c := make(chan struct{}, 1)
          go func() {
              err := srv.Close(c)
              if err != nil {
              }
          }()
          select {
          case <-c:
          case <-ctx.Done():
          }
      }(service)
  }
  wg.Wait()
  \<close>
  The loop starts one goroutine for every entry that is not failed. The goroutines run
  concurrently; the model takes the schedule in which each goroutine makes its
  \<^verbatim>\<open>Close\<close> call as soon as it has been started. The error of \<^verbatim>\<open>srv.Close\<close> is
  dropped.

  Time is a logical clock in nanoseconds that starts when the context is set up:
  statements take no time, only waiting does. The context is done \<open>d\<close> nanoseconds
  after it was set up, where \<open>d\<close> is its timeout (at once when the timeout is not
  positive). A \<^verbatim>\<open>select\<close> ends with the first of its two cases: when the entry
  signals, or when the context is done.
\<close>

definition select_ends :: "nat \<Rightarrow> close_reply \<Rightarrow> nat" where
  "select_ends d reply = (case notify_after reply of None \<Rightarrow> d | Some t \<Rightarrow> min t d)"

text \<open>
  A \<^verbatim>\<open>Close\<close> on a nil interface value panics in its goroutine, where nothing recovers
  it, and the program ends there: the loop goes no further, and the first component of
  the result is \<open>True\<close>.
\<close>

fun fn_range ::
  "('e, 'w) methods \<Rightarrow> (string \<rightharpoonup> 'e Service) \<Rightarrow> string set \<Rightarrow> nat \<Rightarrow> string list \<Rightarrow> 'w
     \<Rightarrow> bool \<times> 'w \<times> 'e event list" where
  "fn_range M m failed d [] w = (False, w, [])"
| "fn_range M m failed d (name # ns) w =
     (case m name of
        None \<Rightarrow> fn_range M m failed d ns w
      | Some service \<Rightarrow>
          if name \<in> failed then fn_range M m failed d ns w
          else (case service of
                  None \<Rightarrow> (True, w, [Go_Close name None])
                | Some srv \<Rightarrow>
                    (case svc_Close M srv w of
                       (reply, w1) \<Rightarrow>
                         (case fn_range M m failed d ns w1 of
                            (p, w2, tr) \<Rightarrow>
                              (p, w2, Go_Close name (Some srv) #
                                      Select_ends name (select_ends d reply) # tr)))))"

text \<open>The goroutines the closure has started, by the record of its calls.\<close>

fun Go_Closes :: "'e event list \<Rightarrow> (string \<times> 'e Service) list" where
  "Go_Closes [] = []"
| "Go_Closes (Go_Close n service # tr) = (n, service) # Go_Closes tr"
| "Go_Closes (ev # tr) = Go_Closes tr"

text \<open>
  \<^verbatim>\<open>wg.Wait()\<close> returns when the last \<^verbatim>\<open>select\<close> has ended: the time the closure has
  taken, by the record of its calls.
\<close>

fun elapsed :: "'e event list \<Rightarrow> nat" where
  "elapsed [] = 0"
| "elapsed (Select_ends n t # tr) = max t (elapsed tr)"
| "elapsed (ev # tr) = elapsed tr"

text \<open>The closure \<^verbatim>\<open>fn\<close> of \<^verbatim>\<open>tryClose\<close>.\<close>

definition tryClose_fn ::
  "('e, 'w) methods \<Rightarrow> 'e Server \<Rightarrow> string list \<Rightarrow> 'w \<Rightarrow> unit outcome \<times> 'w \<times> 'e event list" where
  "tryClose_fn M s order w =
     (case fn_range M (entries s) (failedServices s) (nat (sint (closeWaitTime s))) order w of
        (p, w1, tr) \<Rightarrow>
          ((if p then Panics else Returns ()), w1, WithTimeout (closeWaitTime s) # tr))"

text \<open>
  \<^verbatim>\<open>s.closeOnce.Do(fn)\<close>: \<^verbatim>\<open>sync.Once\<close> runs \<open>fn\<close> if its done flag is not set, and sets
  the flag (also when the run has panicked).
\<close>

definition tryClose ::
  "('e, 'w) methods \<Rightarrow> 'e Server \<Rightarrow> string list \<Rightarrow> 'w
     \<Rightarrow> unit outcome \<times> 'e Server \<times> 'w \<times> 'e event list" where
  "tryClose M s order w =
     (if closeOnce s then (Returns (), s, w, [])
      else (case tryClose_fn M s order w of
              (r, w1, tr) \<Rightarrow> (r, s\<lparr>closeOnce := True\<rparr>, w1, tr)))"

subsection \<open>Close\<close>

text \<open>
  \<^verbatim>\<open>
  if s.closeCh != nil {
      close(s.closeCh)
  }
  \<close>
  Closing a channel that is closed already panics (\<open>None\<close>).
\<close>

definition Close_closeCh :: "'e Server \<Rightarrow> 'e Server option" where
  "Close_closeCh s =
     (case closeCh s of
        None \<Rightarrow> Some s
      | Some c \<Rightarrow>
          if chan_closed c then None
          else Some (s\<lparr>closeCh := Some (c\<lparr>chan_closed := True\<rparr>)\<rparr>))"

text \<open>
  \<^verbatim>\<open>
  if ch != nil {
      ch <- struct{}{}
  }
  return nil
  \<close>
  A send on a closed channel panics.
\<close>

definition Close_ack :: "chan option \<Rightarrow> error option outcome" where
  "Close_ack ch =
     (case ch of
        None \<Rightarrow> Returns None
      | Some c \<Rightarrow>
          if chan_closed c then Panics
          else if chan_ready c then Returns None
          else Blocks)"

text \<open>
  The channel a call was given, as it is when the call comes to its send: when it is
  the channel \<^verbatim>\<open>s.closeCh\<close> itself, it is what \<^verbatim>\<open>s.closeCh\<close> has become.
\<close>

definition chan_now :: "'e Server \<Rightarrow> chan option \<Rightarrow> chan option" where
  "chan_now s ch =
     (case ch of
        None \<Rightarrow> None
      | Some c \<Rightarrow>
          (case closeCh s of
             None \<Rightarrow> Some c
           | Some c' \<Rightarrow> if chan_id c' = chan_id c then Some c' else Some c))"

text \<open>
  \<^verbatim>\<open>
  func (s *Server) Close(ch chan struct{}) error {
      if s.closeCh != nil { close(s.closeCh) }
      s.tryClose()
      if ch != nil { ch <- struct{}{} }
      return nil
  }
  \<close>
\<close>

definition Close ::
  "('e, 'w) methods \<Rightarrow> 'e Server \<Rightarrow> string list \<Rightarrow> chan option \<Rightarrow> 'w
     \<Rightarrow> error option outcome \<times> 'e Server \<times> 'w \<times> 'e event list" where
  "Close M s order ch w =
     (case Close_closeCh s of
        None \<Rightarrow> (Panics, s, w, [])
      | Some s1 \<Rightarrow>
          (case tryClose M s1 order w of
             (Returns u, s2, w2, tr) \<Rightarrow> (Close_ack (chan_now s2 ch), s2, w2, tr)
           | (Panics, s2, w2, tr) \<Rightarrow> (Panics, s2, w2, tr)
           | (Blocks, s2, w2, tr) \<Rightarrow> (Blocks, s2, w2, tr)))"

subsection \<open>Close called again and again\<close>

text \<open>
  Calls of \<^verbatim>\<open>Close\<close> on one server, one after the other: each call has its own
  \<^verbatim>\<open>range\<close> order and its own channel, and works on the server as the call before it
  left it (also after a call that panicked, should the caller have recovered).
\<close>

fun Close_seq ::
  "('e, 'w) methods \<Rightarrow> 'e Server \<Rightarrow> (string list \<times> chan option) list \<Rightarrow> 'w
     \<Rightarrow> 'e Server \<times> 'w \<times> 'e event list" where
  "Close_seq M s [] w = (s, w, [])"
| "Close_seq M s ((order, ch) # calls) w =
     (case Close M s order ch w of
        (r, s1, w1, tr) \<Rightarrow>
          (case Close_seq M s1 calls w1 of
             (s2, w2, tr2) \<Rightarrow> (s2, w2, tr @ tr2)))"

text \<open>How often the closure of \<^verbatim>\<open>tryClose\<close> has run, by the record of the calls.\<close>

fun is_WithTimeout :: "'e event \<Rightarrow> bool" where
  "is_WithTimeout (WithTimeout d) = True"
| "is_WithTimeout (Call_Register n srv) = False"
| "is_WithTimeout (Go_Close n service) = False"
| "is_WithTimeout (Select_ends n t) = False"

definition shutdown_runs :: "'e event list \<Rightarrow> nat" where
  "shutdown_runs tr = length (filter is_WithTimeout tr)"

subsection \<open>Close called concurrently\<close>

text \<open>
  Several goroutines inside \<^verbatim>\<open>Close\<close> on the same server. Each call is at one of
  the three statements of \<^verbatim>\<open>Close\<close>, or it has returned, or it has panicked:
\<close>

datatype pc = At_closeCh | At_tryClose | At_ack | Returned "error option" | Panicked

text \<open>
  A configuration holds the server, the world, the record of the calls made so far and,
  for every call of \<^verbatim>\<open>Close\<close> in flight, where it is and the channel it was given.
\<close>

record ('e, 'w) config =
  cfg_server :: "'e Server"
  cfg_world :: 'w
  cfg_trace :: "'e event list"
  cfg_calls :: "(pc \<times> chan option) list"

text \<open>An order in which a \<^verbatim>\<open>range\<close> may visit the map: every key once.\<close>

definition range_order :: "'e Server \<Rightarrow> string list \<Rightarrow> bool" where
  "range_order s order \<longleftrightarrow> distinct order \<and> set order = dom (entries s)"

text \<open>
  One step of one of the calls. The statements are those of the sequential model.
  By its contract \<^verbatim>\<open>sync.Once\<close> runs the function in the first call of \<^verbatim>\<open>Do\<close> only,
  and no call of \<^verbatim>\<open>Do\<close> returns before that run has ended; the closure reads nothing
  that the other statements of \<^verbatim>\<open>Close\<close> write, so the step of \<^verbatim>\<open>s.tryClose()\<close> is
  taken at once. A call that blocks on its channel has no step. A panic that nothing
  recovers ends the program; here the other calls may go on after it, which only adds
  interleavings.
\<close>

inductive step :: "('e, 'w) methods \<Rightarrow> ('e, 'w) config \<Rightarrow> ('e, 'w) config \<Rightarrow> bool"
  for M :: "('e, 'w) methods" where
  step_closeCh:
    "i < length (cfg_calls c) \<Longrightarrow> cfg_calls c ! i = (At_closeCh, ch) \<Longrightarrow>
     Close_closeCh (cfg_server c) = Some s1 \<Longrightarrow>
     step M c (c\<lparr>cfg_server := s1, cfg_calls := (cfg_calls c)[i := (At_tryClose, ch)]\<rparr>)"
| step_closeCh_panic:
    "i < length (cfg_calls c) \<Longrightarrow> cfg_calls c ! i = (At_closeCh, ch) \<Longrightarrow>
     Close_closeCh (cfg_server c) = None \<Longrightarrow>
     step M c (c\<lparr>cfg_calls := (cfg_calls c)[i := (Panicked, ch)]\<rparr>)"
| step_tryClose:
    "i < length (cfg_calls c) \<Longrightarrow> cfg_calls c ! i = (At_tryClose, ch) \<Longrightarrow>
     range_order (cfg_server c) order \<Longrightarrow>
     tryClose M (cfg_server c) order (cfg_world c) = (r, s1, w1, tr) \<Longrightarrow>
     step M c (c\<lparr>cfg_server := s1, cfg_world := w1, cfg_trace := cfg_trace c @ tr,
                  cfg_calls := (cfg_calls c)[i := ((if r = Returns () then At_ack else Panicked), ch)]\<rparr>)"
| step_ack:
    "i < length (cfg_calls c) \<Longrightarrow> cfg_calls c ! i = (At_ack, ch) \<Longrightarrow>
     Close_ack (chan_now (cfg_server c) ch) = Returns err \<Longrightarrow>
     step M c (c\<lparr>cfg_calls := (cfg_calls c)[i := (Returned err, ch)]\<rparr>)"
| step_ack_panic:
    "i < length (cfg_calls c) \<Longrightarrow> cfg_calls c ! i = (At_ack, ch) \<Longrightarrow>
     Close_ack (chan_now (cfg_server c) ch) = Panics \<Longrightarrow>
     step M c (c\<lparr>cfg_calls := (cfg_calls c)[i := (Panicked, ch)]\<rparr>)"

text \<open>
  Where a call of \<^verbatim>\<open>Close\<close> that ran alone from its first statement has ended up:
  a call that blocks stays at its send.
\<close>

fun pc_after :: "error option outcome \<Rightarrow> pc" where
  "pc_after (Returns err) = Returned err"
| "pc_after Panics = Panicked"
| "pc_after Blocks = At_ack"

subsection \<open>The servers that can be built\<close>

text \<open>
  Outside the package a \<^verbatim>\<open>Server\<close> starts as the zero value; its exported field
  \<^verbatim>\<open>MaxCloseWaitTime\<close> can be set, and its methods can be called. Of the methods,
  \<^verbatim>\<open>AddService\<close> and \<^verbatim>\<open>Close\<close> write fields of the server. No statement of the
  package assigns \<^verbatim>\<open>closeCh\<close> or stores into \<^verbatim>\<open>failedServices\<close>.
\<close>

inductive built :: "('e, 'w) methods \<Rightarrow> 'e Server \<Rightarrow> bool"
  for M :: "('e, 'w) methods" where
  built_zero: "built M zero_Server"
| built_MaxCloseWaitTime: "built M s \<Longrightarrow> built M (s\<lparr>cfg_MaxCloseWaitTime := d\<rparr>)"
| built_AddService: "built M s \<Longrightarrow> built M (AddService s serviceName service)"
| built_Close: "built M s \<Longrightarrow> built M (fst (snd (Close M s order ch w)))"

text \<open>
  Whether \<^verbatim>\<open>closeCh\<close> tells a waiter that the shutdown has begun: a receive from a
  closed channel gets through, a receive from an open or a nil channel waits.
\<close>

definition signalled :: "'e Server \<Rightarrow> bool" where
  "signalled s = (case closeCh s of None \<Rightarrow> False | Some c \<Rightarrow> chan_closed c)"

subsection \<open>An example\<close>

text \<open>
  Entries are numbers and the world is the list of the entries whose methods have been
  called. Entry 2 refuses every registration; the \<^verbatim>\<open>Close\<close> of entry 1 returns an error
  and signals at once; entry 2 signals after two seconds; entry 3 never signals on the
  channel its \<^verbatim>\<open>Close\<close> was given.
\<close>

definition demo_methods :: "(nat, nat list) methods" where
  "demo_methods =
     \<lparr>svc_Register = (\<lambda>e desc impl w. ((if e = 2 then Some (service_error 2) else None), w @ [e])),
      svc_Serve = (\<lambda>e w. (None, w)),
      svc_Close = (\<lambda>e w. (\<lparr>close_err = (if e = 1 then Some (errors_New ''close failed'') else None),
                              notify_after = (if e = 1 then Some 0 else if e = 2 then Some 2000000000
                                              else None)\<rparr>, w @ [e]))\<rparr>"

text \<open>A server with the entries 1, 2, 3 under the names a, b, c.\<close>

definition demo_Server :: "nat Server" where
  "demo_Server =
     AddService (AddService (AddService zero_Server ''a'' (Some 1)) ''b'' (Some 2)) ''c'' (Some 3)"

text \<open>
  Two goroutines have called \<^verbatim>\<open>Close\<close> on that server, neither with a channel; and the
  same two after both have passed \<^verbatim>\<open>s.tryClose()\<close>.
\<close>

definition demo_start :: "(nat, nat list) config" where
  "demo_start =
     \<lparr>cfg_server = demo_Server, cfg_world = [], cfg_trace = [],
      cfg_calls = [(At_closeCh, None), (At_closeCh, None)]\<rparr>"

definition demo_closed :: "(nat, nat list) config" where
  "demo_closed =
     \<lparr>cfg_server = demo_Server\<lparr>closeOnce := True\<rparr>, cfg_world = [1, 2, 3],
      cfg_trace = [WithTimeout MaxCloseWaitTime,
                   Go_Close ''a'' (Some 1), Select_ends ''a'' 0,
                   Go_Close ''b'' (Some 2), Select_ends ''b'' 2000000000,
                   Go_Close ''c'' (Some 3), Select_ends ''c'' 10000000000],
      cfg_calls = [(At_ack, None), (At_ack, None)]\<rparr>"

section \<open>Properties\<close>

subsection \<open>The map of entries\<close>

lemma entries_nil_map: "entries (s\<lparr>services := None\<rparr>) = Map.empty"
  by (simp add: entries_def)

lemma entries_AddService:
  "entries (AddService s name service) = (entries s)(name \<mapsto> service)"
  by (simp add: AddService_def entries_def Let_def split: option.splits)

lemma failedServices_AddService: "failedServices (AddService s name service) = failedServices s"
  by (simp add: AddService_def Let_def)

lemma Service_entries:
  "Service s name = (case entries s name of None \<Rightarrow> None | Some service \<Rightarrow> service)"
  by (simp add: Service_def entries_def split: option.splits)

subsection \<open>The loop of Register\<close>

lemma Register_range_no_entries:
  "Register_range M Map.empty order desc serviceImpl w = (Returns None, w, [])"
  by (induction order) simp_all

lemma Register_range_events:
  "Register_range M m ns desc serviceImpl w = (r, w', tr) \<Longrightarrow> ev \<in> set tr \<Longrightarrow>
     \<exists>n srv. ev = Call_Register n srv \<and> n \<in> set ns \<and> m n = Some (Some srv)"
proof (induction ns arbitrary: w r w' tr)
  case Nil
  then show ?case by simp
next
  case (Cons n ns)
  show ?case
  proof (cases "m n")
    case None
    with Cons.prems have "Register_range M m ns desc serviceImpl w = (r, w', tr)" by simp
    from Cons.IH [OF this Cons.prems(2)] show ?thesis by auto
  next
    case (Some service)
    show ?thesis
    proof (cases service)
      case None
      with Some Cons.prems show ?thesis by simp
    next
      case (Some srv)
      note srv = \<open>m n = Some service\<close> Some
      obtain e w1 where reg: "svc_Register M srv desc serviceImpl w = (e, w1)"
        by (cases "svc_Register M srv desc serviceImpl w")
      show ?thesis
      proof (cases e)
        case (Some err)
        with srv reg Cons.prems show ?thesis by auto
      next
        case None
        obtain r2 w2 tr2 where rest: "Register_range M m ns desc serviceImpl w1 = (r2, w2, tr2)"
          by (cases "Register_range M m ns desc serviceImpl w1")
        with srv reg None Cons.prems have tr: "tr = Call_Register n srv # tr2" by simp
        show ?thesis
        proof (cases "ev = Call_Register n srv")
          case True
          with srv show ?thesis by auto
        next
          case False
          with tr Cons.prems(2) have "ev \<in> set tr2" by simp
          from Cons.IH [OF rest this] show ?thesis by auto
        qed
      qed
    qed
  qed
qed

lemma Register_events:
  assumes "Register M s order serviceDesc serviceImpl w = (r, w', tr)" and "ev \<in> set tr"
  shows "\<exists>n srv. ev = Call_Register n srv \<and> n \<in> set order \<and> entries s n = Some (Some srv)"
proof (cases serviceDesc)
  case (ServiceDesc_ptr desc)
  with assms(1) have "Register_range M (entries s) order (ServiceDesc_ptr desc) serviceImpl w = (r, w', tr)"
    by (simp add: Register_def)
  from Register_range_events [OF this assms(2)] show ?thesis .
qed (use assms in \<open>simp_all add: Register_def\<close>)

text \<open>The loop, when the entries visited first all accept and the next one refuses.\<close>

lemma Register_range_append:
  "Register_range M m pre desc serviceImpl w = (Returns None, w1, tr1) \<Longrightarrow>
   Register_range M m (pre @ post) desc serviceImpl w =
     (case Register_range M m post desc serviceImpl w1 of (r, w2, tr2) \<Rightarrow> (r, w2, tr1 @ tr2))"
proof (induction pre arbitrary: w tr1)
  case Nil
  then show ?case by simp
next
  case (Cons n pre)
  show ?case
  proof (cases "m n")
    case None
    with Cons show ?thesis by simp
  next
    case (Some service)
    show ?thesis
    proof (cases service)
      case None
      with Some Cons.prems show ?thesis by simp
    next
      case (Some srv)
      note srv = \<open>m n = Some service\<close> Some
      obtain e w0 where reg: "svc_Register M srv desc serviceImpl w = (e, w0)"
        by (cases "svc_Register M srv desc serviceImpl w")
      show ?thesis
      proof (cases e)
        case (Some err)
        with srv reg Cons.prems show ?thesis by simp
      next
        case None
        obtain r2 w2 tr2 where rest: "Register_range M m pre desc serviceImpl w0 = (r2, w2, tr2)"
          by (cases "Register_range M m pre desc serviceImpl w0")
        with srv reg None Cons.prems have eqs: "r2 = Returns None" "w2 = w1" "tr1 = Call_Register n srv # tr2"
          by simp_all
        from rest eqs have "Register_range M m pre desc serviceImpl w0 = (Returns None, w1, tr2)" by simp
        from Cons.IH [OF this] srv reg None eqs show ?thesis
          by (simp split: prod.splits)
      qed
    qed
  qed
qed

subsection \<open>The loop of the closure\<close>

lemma shutdown_runs_fn_range:
  "shutdown_runs (snd (snd (fn_range M m failed d ns w))) = 0"
  by (induction ns arbitrary: w)
    (simp_all add: shutdown_runs_def case_prod_unfold split: option.splits)

lemma tryClose_fn_trace:
  "snd (snd (tryClose_fn M s order w)) =
     WithTimeout (closeWaitTime s) #
     snd (snd (fn_range M (entries s) (failedServices s) (nat (sint (closeWaitTime s))) order w))"
  by (simp add: tryClose_fn_def case_prod_unfold)

lemma shutdown_runs_tryClose_fn: "shutdown_runs (snd (snd (tryClose_fn M s order w))) = 1"
  using shutdown_runs_fn_range [of M "entries s" "failedServices s" _ order w]
  by (simp add: tryClose_fn_trace shutdown_runs_def)

lemma fn_range_panics:
  "fst (fn_range M m failed d ns w) \<longleftrightarrow> (\<exists>n\<in>set ns. m n = Some None \<and> n \<notin> failed)"
  by (induction ns arbitrary: w) (auto simp: case_prod_unfold split: option.splits)

text \<open>A failed entry makes no difference to the loop: it might as well not be visited.\<close>

lemma fn_range_failed:
  "fn_range M m failed d ns w = fn_range M m {} d (filter (\<lambda>n. n \<notin> failed) ns) w"
  by (induction ns arbitrary: w) (simp_all add: case_prod_unfold split: option.splits)

text \<open>
  The loop when it meets no nil entry: the world it leaves, the goroutines it has
  started and the end of its wait.
\<close>

lemma fn_range_world:
  "\<forall>n\<in>set ns. n \<in> failed \<or> m n \<noteq> Some None \<Longrightarrow>
   fst (snd (fn_range M m failed d ns w)) =
     foldl (\<lambda>w n. snd (svc_Close M (the (the (m n))) w)) w
       (filter (\<lambda>n. m n \<noteq> None \<and> n \<notin> failed) ns)"
  by (induction ns arbitrary: w) (auto simp: case_prod_unfold split: option.splits)

lemma fn_range_Go_Closes:
  "\<forall>n\<in>set ns. n \<in> failed \<or> m n \<noteq> Some None \<Longrightarrow>
   Go_Closes (snd (snd (fn_range M m failed d ns w))) =
     map (\<lambda>n. (n, the (m n))) (filter (\<lambda>n. m n \<noteq> None \<and> n \<notin> failed) ns)"
  by (induction ns arbitrary: w) (auto simp: case_prod_unfold split: option.splits)

lemma select_ends_le: "select_ends d reply \<le> d"
  by (simp add: select_ends_def split: option.splits)

lemma elapsed_fn_range_le: "elapsed (snd (snd (fn_range M m failed d ns w))) \<le> d"
  by (induction ns arbitrary: w)
    (simp_all add: case_prod_unfold select_ends_le split: option.splits)

lemma elapsed_fn_range_never:
  assumes "\<forall>n\<in>set ns. n \<in> failed \<or> m n \<noteq> Some None"
    and "n \<in> set ns" "m n = Some (Some srv)" "n \<notin> failed"
    and "\<forall>w. notify_after (fst (svc_Close M srv w)) = None"
  shows "elapsed (snd (snd (fn_range M m failed d ns w))) = d"
  using assms(1,2)
proof (induction ns arbitrary: w)
  case Nil
  then show ?case by simp
next
  case (Cons a ns)
  have le: "elapsed (snd (snd (fn_range M m failed d ns w'))) \<le> d" for w'
    by (rule elapsed_fn_range_le)
  show ?case
  proof (cases "a = n")
    case True
    with assms(3-5) le [of "snd (svc_Close M srv w)"] show ?thesis
      by (simp add: case_prod_unfold select_ends_def max_def)
  next
    case False
    with Cons.prems have "n \<in> set ns" and "\<forall>n\<in>set ns. n \<in> failed \<or> m n \<noteq> Some None"
      by simp_all
    from Cons.IH [OF this(2,1)] have ih: "elapsed (snd (snd (fn_range M m failed d ns w'))) = d" for w' .
    from Cons.prems(1) have "a \<in> failed \<or> m a \<noteq> Some None" by simp
    with ih show ?thesis
      by (auto simp: case_prod_unfold max_def select_ends_def split: option.splits)
  qed
qed

subsection \<open>The wait\<close>

lemma sint_MaxCloseWaitTime: "sint MaxCloseWaitTime = 10000000000"
  by (simp add: MaxCloseWaitTime_def Second_def)

subsection \<open>sync.Once\<close>

lemma closeOnce_Close_closeCh: "Close_closeCh s = Some s1 \<Longrightarrow> closeOnce s1 = closeOnce s"
  by (auto simp: Close_closeCh_def split: option.splits if_splits)

lemma tryClose_done: "closeOnce s \<Longrightarrow> tryClose M s order w = (Returns (), s, w, [])"
  by (simp add: tryClose_def)

lemma tryClose_runs:
  assumes "tryClose M s order w = (r, s1, w1, tr)"
  shows "closeOnce s1 \<and> shutdown_runs tr = (if closeOnce s then 0 else 1)"
proof (cases "closeOnce s")
  case True
  with assms show ?thesis by (simp add: tryClose_def shutdown_runs_def)
next
  case False
  with assms have "tr = snd (snd (tryClose_fn M s order w))" and "closeOnce s1"
    by (auto simp: tryClose_def split: prod.splits)
  with False show ?thesis by (simp add: shutdown_runs_tryClose_fn)
qed

lemma Close_runs:
  assumes "Close M s order ch w = (r, s1, w1, tr)"
  shows "(closeOnce s \<longrightarrow> closeOnce s1) \<and> shutdown_runs tr \<le> (if closeOnce s then 0 else 1) \<and>
         (shutdown_runs tr = 1 \<longrightarrow> closeOnce s1)"
proof (cases "Close_closeCh s")
  case None
  with assms show ?thesis by (simp add: Close_def shutdown_runs_def)
next
  case (Some s0)
  obtain r' s' w' tr' where t: "tryClose M s0 order w = (r', s', w', tr')"
    by (cases "tryClose M s0 order w")
  with Some assms have "s1 = s'" and "tr = tr'"
    by (auto simp: Close_def split: outcome.splits)
  with tryClose_runs [OF t] closeOnce_Close_closeCh [OF Some] show ?thesis by simp
qed

lemma shutdown_runs_append: "shutdown_runs (tr @ tr') = shutdown_runs tr + shutdown_runs tr'"
  by (simp add: shutdown_runs_def)

lemma Close_seq_runs:
  "shutdown_runs (snd (snd (Close_seq M s calls w))) \<le> (if closeOnce s then 0 else 1)"
proof (induction calls arbitrary: s w)
  case Nil
  then show ?case by (simp add: shutdown_runs_def)
next
  case (Cons call calls)
  obtain order ch where call: "call = (order, ch)" by (cases call)
  obtain r s1 w1 tr where c: "Close M s order ch w = (r, s1, w1, tr)"
    by (cases "Close M s order ch w")
  obtain s2 w2 tr2 where rest: "Close_seq M s1 calls w1 = (s2, w2, tr2)"
    by (cases "Close_seq M s1 calls w1")
  from Cons.IH [of s1 w1] rest
  have "shutdown_runs tr2 \<le> (if closeOnce s1 then 0 else 1)" by simp
  with Close_runs [OF c] call c rest show ?case
    by (auto simp: shutdown_runs_append split: if_splits)
qed

lemma step_runs:
  assumes "step M c c'"
    and "shutdown_runs (cfg_trace c) \<le> (if closeOnce (cfg_server c) then 1 else 0)"
  shows "shutdown_runs (cfg_trace c') \<le> (if closeOnce (cfg_server c') then 1 else 0)"
  using assms
proof (cases rule: step.cases)
  case (step_closeCh i ch s1)
  with assms(2) closeOnce_Close_closeCh [OF step_closeCh(4)] show ?thesis by simp
next
  case (step_tryClose i ch order r s1 w1 tr)
  with assms(2) tryClose_runs [OF step_tryClose(5)] show ?thesis
    by (auto simp: shutdown_runs_append split: if_splits)
qed (use assms(2) in simp_all)

lemma steps_runs:
  assumes "(step M)\<^sup>*\<^sup>* c c'"
    and "shutdown_runs (cfg_trace c) \<le> (if closeOnce (cfg_server c) then 1 else 0)"
  shows "shutdown_runs (cfg_trace c') \<le> (if closeOnce (cfg_server c') then 1 else 0)"
  using assms
proof (induction rule: rtranclp_induct)
  case base
  then show ?case .
next
  case (step y z)
  from step.IH [OF step.prems] have "shutdown_runs (cfg_trace y) \<le> (if closeOnce (cfg_server y) then 1 else 0)" .
  with step.hyps(2) show ?case by (rule step_runs)
qed

subsection \<open>Close\<close>

lemma closeCh_tryClose: "closeCh (fst (snd (tryClose M s order w))) = closeCh s"
  by (simp add: tryClose_def case_prod_unfold)

lemma entries_tryClose: "entries (fst (snd (tryClose M s order w))) = entries s"
  by (simp add: tryClose_def case_prod_unfold entries_def)

lemma tryClose_Blocks: "fst (tryClose M s order w) \<noteq> Blocks"
  by (simp add: tryClose_def tryClose_fn_def case_prod_unfold)

lemma Close_on_closed_closeCh:
  "closeCh s = Some c \<Longrightarrow> chan_closed c \<Longrightarrow> Close M s order ch w = (Panics, s, w, [])"
  by (simp add: Close_def Close_closeCh_def)

lemma failedServices_tryClose: "failedServices (fst (snd (tryClose M s order w))) = failedServices s"
  by (simp add: tryClose_def case_prod_unfold)

lemma chan_now_nil: "closeCh s = None \<Longrightarrow> chan_now s ch = ch"
  by (simp add: chan_now_def split: option.splits)

lemma Close_closes_closeCh:
  assumes "closeCh s = Some c" and "\<not> chan_closed c"
  shows "closeCh (fst (snd (Close M s order ch w))) = Some (c\<lparr>chan_closed := True\<rparr>)"
proof -
  let ?s1 = "s\<lparr>closeCh := Some (c\<lparr>chan_closed := True\<rparr>)\<rparr>"
  from assms have c: "Close_closeCh s = Some ?s1"
    by (simp add: Close_closeCh_def)
  have "fst (snd (Close M s order ch w)) = fst (snd (tryClose M ?s1 order w))"
    by (simp add: Close_def c case_prod_unfold split: outcome.splits)
  then show ?thesis by (simp add: closeCh_tryClose)
qed

text \<open>With a nil \<^verbatim>\<open>closeCh\<close> the first statement of \<^verbatim>\<open>Close\<close> does nothing.\<close>

lemma Close_nil_closeCh:
  assumes "closeCh s = None"
  shows "snd (Close M s order ch w) = snd (tryClose M s order w)"
    and "fst (Close M s order ch w) =
           (case fst (tryClose M s order w) of
              Returns u \<Rightarrow> Close_ack ch | Panics \<Rightarrow> Panics | Blocks \<Rightarrow> Blocks)"
proof -
  from assms have c: "Close_closeCh s = Some s"
    by (simp add: Close_closeCh_def)
  from assms have now: "chan_now (fst (snd (tryClose M s order w))) ch = ch"
    by (simp add: chan_now_nil closeCh_tryClose)
  show "snd (Close M s order ch w) = snd (tryClose M s order w)"
    by (simp add: Close_def c case_prod_unfold split: outcome.splits)
  from now show "fst (Close M s order ch w) =
      (case fst (tryClose M s order w) of
         Returns u \<Rightarrow> Close_ack ch | Panics \<Rightarrow> Panics | Blocks \<Rightarrow> Blocks)"
    by (simp add: Close_def c case_prod_unfold split: outcome.splits)
qed

lemma tryClose_returns:
  assumes "closeOnce s \<or> (\<forall>n\<in>set order. n \<in> failedServices s \<or> entries s n \<noteq> Some None)"
  shows "fst (tryClose M s order w) = Returns ()"
  using assms by (auto simp: tryClose_def tryClose_fn_def case_prod_unfold fn_range_panics)

text \<open>
  \<^verbatim>\<open>Close\<close> returns the nil error when \<^verbatim>\<open>closeCh\<close> is nil, the closure has run
  already or meets no nil entry, and the channel given is nil or takes the send:
  whatever the \<^verbatim>\<open>Close\<close> of an entry returns, and whether or not it signals.
\<close>

lemma Close_returns_nil:
  assumes sig: "closeCh s = None"
    and ents: "closeOnce s \<or> (\<forall>n\<in>set order. n \<in> failedServices s \<or> entries s n \<noteq> Some None)"
    and ack: "ch = None \<or> (\<exists>c. ch = Some c \<and> \<not> chan_closed c \<and> chan_ready c)"
  shows "Close M s order ch w = (Returns None, snd (tryClose M s order w))"
proof -
  from ack have "Close_ack ch = Returns None"
    by (auto simp: Close_ack_def)
  with Close_nil_closeCh [OF sig, of M order ch w] tryClose_returns [OF ents, of M w]
  have "fst (Close M s order ch w) = Returns None"
    and "snd (Close M s order ch w) = snd (tryClose M s order w)"
    by simp_all
  then show ?thesis by (simp add: prod_eq_iff)
qed

subsection \<open>The servers that can be built\<close>

lemma built_fields:
  "built M s \<Longrightarrow> closeCh s = None \<and> failedServices s = {}"
proof (induction rule: built.induct)
  case built_zero
  show ?case by (simp add: zero_Server_def)
next
  case (built_MaxCloseWaitTime s d)
  then show ?case by simp
next
  case (built_AddService s serviceName service)
  then show ?case by (simp add: AddService_def Let_def)
next
  case (built_Close s order ch w)
  then have "closeCh s = None" and "failedServices s = {}" by simp_all
  with Close_nil_closeCh(1) [OF this(1), of M order ch w] show ?case
    by (simp add: closeCh_tryClose failedServices_tryClose)
qed

lemma closeCh_Close_seq:
  "closeCh s = None \<Longrightarrow> closeCh (fst (Close_seq M s calls w)) = None"
proof (induction calls arbitrary: s w)
  case Nil
  then show ?case by simp
next
  case (Cons call calls)
  obtain order ch where call: "call = (order, ch)" by (cases call)
  from Cons.prems Close_nil_closeCh(1) [OF Cons.prems, of M order ch w]
  have "closeCh (fst (snd (Close M s order ch w))) = None"
    by (simp add: closeCh_tryClose)
  from Cons.IH [OF this] call show ?case
    by (simp add: case_prod_unfold)
qed

text \<open>
  A call of \<^verbatim>\<open>Close\<close> that runs alone is an interleaving: its steps one after the
  other.
\<close>

lemma range_order_Close_closeCh:
  "Close_closeCh s = Some s1 \<Longrightarrow> range_order s1 order = range_order s order"
  by (auto simp: Close_closeCh_def range_order_def entries_def split: option.splits if_splits)

lemma Close_steps:
  assumes run: "Close M (cfg_server c) order ch (cfg_world c) = (r, s2, w2, tr)"
    and order: "range_order (cfg_server c) order"
    and i: "i < length (cfg_calls c)" "cfg_calls c ! i = (At_closeCh, ch)"
  shows "(step M)\<^sup>*\<^sup>* c
           (c\<lparr>cfg_server := s2, cfg_world := w2, cfg_trace := cfg_trace c @ tr,
              cfg_calls := (cfg_calls c)[i := (pc_after r, ch)]\<rparr>)"
proof (cases "Close_closeCh (cfg_server c)")
  case None
  with run have "r = Panics" "s2 = cfg_server c" "w2 = cfg_world c" "tr = []"
    by (simp_all add: Close_def)
  with step_closeCh_panic [OF i None, of M] show ?thesis by simp
next
  case (Some s1)
  let ?c1 = "c\<lparr>cfg_server := s1, cfg_calls := (cfg_calls c)[i := (At_tryClose, ch)]\<rparr>"
  have one: "step M c ?c1"
    using i Some by (rule step_closeCh)
  obtain r' where t: "tryClose M s1 order (cfg_world c) = (r', s2, w2, tr)"
    and r: "r = (case r' of Returns u \<Rightarrow> Close_ack (chan_now s2 ch) | Panics \<Rightarrow> Panics
                   | Blocks \<Rightarrow> Blocks)"
    using run Some by (auto simp: Close_def split: prod.splits outcome.splits)
  let ?c2 = "c\<lparr>cfg_server := s2, cfg_world := w2, cfg_trace := cfg_trace c @ tr,
      cfg_calls := (cfg_calls c)[i := ((if r' = Returns () then At_ack else Panicked), ch)]\<rparr>"
  have "step M ?c1 (?c1\<lparr>cfg_server := s2, cfg_world := w2, cfg_trace := cfg_trace ?c1 @ tr,
      cfg_calls := (cfg_calls ?c1)[i := ((if r' = Returns () then At_ack else Panicked), ch)]\<rparr>)"
    using i order t range_order_Close_closeCh [OF Some, of order]
    by (intro step_tryClose [where order = order]) simp_all
  then have two: "step M ?c1 ?c2" by simp
  have three: "(step M)\<^sup>*\<^sup>* ?c2
      (c\<lparr>cfg_server := s2, cfg_world := w2, cfg_trace := cfg_trace c @ tr,
         cfg_calls := (cfg_calls c)[i := (pc_after r, ch)]\<rparr>)"
  proof (cases r')
    case (Returns u)
    show ?thesis
    proof (cases "Close_ack (chan_now s2 ch)")
      case (Returns err)
      with \<open>r' = Returns u\<close> r i step_ack [of i ?c2 ch err M] show ?thesis by simp
    next
      case Panics
      with \<open>r' = Returns u\<close> r i step_ack_panic [of i ?c2 ch M] show ?thesis by simp
    next
      case Blocks
      with \<open>r' = Returns u\<close> r show ?thesis by simp
    qed
  next
    case Panics
    with r show ?thesis by simp
  next
    case Blocks
    with t tryClose_Blocks [of M s1 order "cfg_world c"] show ?thesis by simp
  qed
  from one two three show ?thesis by simp
qed

subsection \<open>Evaluating the example\<close>

lemmas demo_eval =
  demo_methods_def demo_Server_def zero_Server_def AddService_def entries_def Service_def
  Register_def tryClose_fn_def closeWaitTime_def MaxCloseWaitTime_def Second_def Let_def
  select_ends_def word_sless_alt

lemma range_order_demo:
  "range_order demo_Server [''a'', ''b'', ''c'']"
  "range_order (demo_Server\<lparr>closeOnce := True\<rparr>) [''c'', ''a'', ''b'']"
  by (auto simp: range_order_def demo_Server_def zero_Server_def AddService_def entries_def Let_def)

lemma Close_closeCh_demo: "Close_closeCh demo_Server = Some demo_Server"
  by (simp add: Close_closeCh_def demo_Server_def zero_Server_def AddService_def Let_def)

lemma tryClose_demo:
  "tryClose demo_methods demo_Server [''a'', ''b'', ''c''] [] =
     (Returns (), demo_Server\<lparr>closeOnce := True\<rparr>, [1, 2, 3],
      [WithTimeout MaxCloseWaitTime,
       Go_Close ''a'' (Some 1), Select_ends ''a'' 0,
       Go_Close ''b'' (Some 2), Select_ends ''b'' 2000000000,
       Go_Close ''c'' (Some 3), Select_ends ''c'' 10000000000])"
  by (simp add: tryClose_def demo_eval)

lemma demo_steps: "(step demo_methods)\<^sup>*\<^sup>* demo_start demo_closed"
proof -
  let ?c1 = "demo_start\<lparr>cfg_calls := [(At_tryClose, None), (At_closeCh, None)]\<rparr>"
  let ?c2 = "demo_start\<lparr>cfg_calls := [(At_tryClose, None), (At_tryClose, None)]\<rparr>"
  let ?c3 = "demo_closed\<lparr>cfg_calls := [(At_tryClose, None), (At_ack, None)]\<rparr>"
  have "step demo_methods demo_start ?c1"
    using step_closeCh [of 0 demo_start None demo_Server demo_methods]
    by (simp add: demo_start_def Close_closeCh_demo)
  moreover have "step demo_methods ?c1 ?c2"
    using step_closeCh [of 1 ?c1 None demo_Server demo_methods]
    by (simp add: demo_start_def Close_closeCh_demo)
  moreover have "step demo_methods ?c2 ?c3"
    using step_tryClose [of 1 ?c2 None "[''a'', ''b'', ''c'']" demo_methods
        "Returns ()" "demo_Server\<lparr>closeOnce := True\<rparr>" "[1, 2, 3]"
        "[WithTimeout MaxCloseWaitTime,
       Go_Close ''a'' (Some 1), Select_ends ''a'' 0,
       Go_Close ''b'' (Some 2), Select_ends ''b'' 2000000000,
       Go_Close ''c'' (Some 3), Select_ends ''c'' 10000000000]"]
    by (simp add: demo_start_def demo_closed_def range_order_demo tryClose_demo)
  moreover have "step demo_methods ?c3 demo_closed"
    using step_tryClose [of 0 ?c3 None "[''c'', ''a'', ''b'']" demo_methods
        "Returns ()" "demo_Server\<lparr>closeOnce := True\<rparr>" "[1, 2, 3]" "[]"]
    by (simp add: demo_closed_def range_order_demo tryClose_done)
  ultimately show ?thesis by simp
qed

lemma built_demo: "built demo_methods demo_Server"
  unfolding demo_Server_def by (intro built.intros)

lemma closeCh_demo: "closeCh demo_Server = None"
  by (simp add: demo_Server_def zero_Server_def AddService_def Let_def)

lemma Close_demo:
  "Close demo_methods demo_Server [''a'', ''b'', ''c''] None [] =
     (Returns None, demo_Server\<lparr>closeOnce := True\<rparr>, [1, 2, 3],
      [WithTimeout MaxCloseWaitTime,
       Go_Close ''a'' (Some 1), Select_ends ''a'' 0,
       Go_Close ''b'' (Some 2), Select_ends ''b'' 2000000000,
       Go_Close ''c'' (Some 3), Select_ends ''c'' 10000000000])"
  by (simp add: Close_def Close_closeCh_demo Close_ack_def chan_now_def tryClose_demo)

section \<open>The claims\<close>

text \<open>
  C1: the closure of \<^verbatim>\<open>tryClose\<close>, which starts the \<^verbatim>\<open>Close\<close> of the entries that are
  not failed under one deadline, runs at most once on a server: however many calls of
  \<^verbatim>\<open>Close\<close> follow one another, and in whatever way the steps of concurrent calls of
  \<^verbatim>\<open>Close\<close> interleave, the calls record at most one start of the closure.
\<close>

theorem shutdown_runs_at_most_once:
  "shutdown_runs (snd (snd (Close_seq M s calls w))) \<le> 1 \<and>
   (cfg_trace c0 = [] \<and> (step M)\<^sup>*\<^sup>* c0 c \<longrightarrow> shutdown_runs (cfg_trace c) \<le> 1)"
proof -
  have seq: "shutdown_runs (snd (snd (Close_seq M s calls w))) \<le> 1"
    using Close_seq_runs [of M s calls w] by (simp split: if_splits)
  have conc: "shutdown_runs (cfg_trace c) \<le> 1" if "cfg_trace c0 = []" and "(step M)\<^sup>*\<^sup>* c0 c"
  proof -
    from that(1) have "shutdown_runs (cfg_trace c0) \<le> (if closeOnce (cfg_server c0) then 1 else 0)"
      by (simp add: shutdown_runs_def)
    from steps_runs [OF that(2) this] show ?thesis by (simp split: if_splits)
  qed
  from seq conc show ?thesis by blast
qed

theorem shutdown_runs_at_most_once_witness:
  "shutdown_runs (snd (snd (Close_seq demo_methods demo_Server
      [([''a'', ''b'', ''c''], None), ([''c'', ''a'', ''b''], None)] []))) \<le> 1 \<and>
   cfg_trace demo_start = [] \<and> (step demo_methods)\<^sup>*\<^sup>* demo_start demo_closed \<and>
   shutdown_runs (cfg_trace demo_closed) \<le> 1"
  using shutdown_runs_at_most_once [of demo_methods demo_Server
      "[([''a'', ''b'', ''c''], None), ([''c'', ''a'', ''b''], None)]" "[]" demo_start demo_closed]
    demo_steps
  by (simp add: demo_start_def)

text \<open>
  C2: \<^verbatim>\<open>Close\<close> does not return the nil error on every call: it panics when the
  channel it is given has been closed or when an entry still to be closed is nil, and
  it blocks when nothing takes the send on its channel.
\<close>

theorem Close_not_nil_counterexample:
  "fst (Close demo_methods demo_Server [''a'', ''b'', ''c'']
          (Some \<lparr>chan_id = 7, chan_closed = True, chan_ready = False\<rparr>) []) = Panics \<and>
   fst (Close demo_methods (AddService demo_Server ''d'' None) [''a'', ''b'', ''c'', ''d''] None []) =
     Panics \<and>
   fst (Close demo_methods (fst (snd (Close demo_methods demo_Server [''a'', ''b'', ''c''] None [])))
          [''a'', ''b'', ''c''] (Some \<lparr>chan_id = 7, chan_closed = False, chan_ready = False\<rparr>) [1, 2, 3]) =
     Blocks"
proof -
  have "fst (Close demo_methods demo_Server [''a'', ''b'', ''c'']
      (Some \<lparr>chan_id = 7, chan_closed = True, chan_ready = False\<rparr>) []) = Panics"
    by (simp add: Close_def Close_closeCh_demo Close_ack_def chan_now_def tryClose_demo closeCh_demo)
  moreover have "fst (Close demo_methods (AddService demo_Server ''d'' None)
      [''a'', ''b'', ''c'', ''d''] None []) = Panics"
    by (simp add: Close_def Close_closeCh_def tryClose_def demo_eval)
  moreover have "fst (Close demo_methods (fst (snd (Close demo_methods demo_Server [''a'', ''b'', ''c''] None [])))
      [''a'', ''b'', ''c''] (Some \<lparr>chan_id = 7, chan_closed = False, chan_ready = False\<rparr>) [1, 2, 3]) = Blocks"
  proof -
    let ?s1 = "demo_Server\<lparr>closeOnce := True\<rparr>"
    have s1: "fst (snd (Close demo_methods demo_Server [''a'', ''b'', ''c''] None [])) = ?s1"
      by (simp add: Close_demo)
    have "closeCh ?s1 = None"
      by (simp add: closeCh_demo)
    from Close_nil_closeCh(2) [OF this, of demo_methods "[''a'', ''b'', ''c'']"
        "Some \<lparr>chan_id = 7, chan_closed = False, chan_ready = False\<rparr>" "[1, 2, 3]"]
    show ?thesis unfolding s1 by (simp add: tryClose_done Close_ack_def)
  qed
  ultimately show ?thesis by blast
qed

text \<open>
  C2, as amended: on a server that can be built, a call of \<^verbatim>\<open>Close\<close>, the first one or a
  later one, returns the nil error when the channel it is given is nil or takes the send
  and, should the closure still have to run, no entry it visits is nil. Nothing of what
  the \<^verbatim>\<open>Close\<close> of an entry returns or signals reaches the caller: server, world and
  record of calls are those \<^verbatim>\<open>tryClose\<close> leaves. The server can then be closed again.
\<close>

theorem Close_returns_nil_on_built:
  assumes "built M s"
    and "closeOnce s \<or> (\<forall>n\<in>set order. entries s n \<noteq> Some None)"
    and "ch = None \<or> (\<exists>c. ch = Some c \<and> \<not> chan_closed c \<and> chan_ready c)"
  shows "Close M s order ch w = (Returns None, snd (tryClose M s order w)) \<and>
         built M (fst (snd (Close M s order ch w)))"
proof -
  from built_fields [OF assms(1)] have nil: "closeCh s = None" by simp
  from assms(2) have "closeOnce s \<or> (\<forall>n\<in>set order. n \<in> failedServices s \<or> entries s n \<noteq> Some None)"
    by auto
  from Close_returns_nil [OF nil this assms(3)]
  have "Close M s order ch w = (Returns None, snd (tryClose M s order w))" .
  moreover from assms(1) have "built M (fst (snd (Close M s order ch w)))"
    by (rule built_Close)
  ultimately show ?thesis by blast
qed

theorem Close_returns_nil_on_built_witness:
  "built demo_methods demo_Server \<and>
   Close demo_methods demo_Server [''a'', ''b'', ''c'']
       (Some \<lparr>chan_id = 7, chan_closed = False, chan_ready = True\<rparr>) [] =
     (Returns None, demo_Server\<lparr>closeOnce := True\<rparr>, [1, 2, 3],
      [WithTimeout MaxCloseWaitTime,
       Go_Close ''a'' (Some 1), Select_ends ''a'' 0,
       Go_Close ''b'' (Some 2), Select_ends ''b'' 2000000000,
       Go_Close ''c'' (Some 3), Select_ends ''c'' 10000000000]) \<and>
   built demo_methods (demo_Server\<lparr>closeOnce := True\<rparr>) \<and>
   Close demo_methods (demo_Server\<lparr>closeOnce := True\<rparr>) [''c'', ''a'', ''b''] None [1, 2, 3] =
     (Returns None, demo_Server\<lparr>closeOnce := True\<rparr>, [1, 2, 3], [])"
proof -
  let ?ch = "Some \<lparr>chan_id = 7, chan_closed = False, chan_ready = True\<rparr>"
  have ents: "closeOnce demo_Server \<or> (\<forall>n\<in>set [''a'', ''b'', ''c'']. entries demo_Server n \<noteq> Some None)"
    by (simp add: demo_eval)
  have ch: "?ch = None \<or> (\<exists>c. ?ch = Some c \<and> \<not> chan_closed c \<and> chan_ready c)"
    by simp
  note one = Close_returns_nil_on_built [OF built_demo ents ch, of "[]"]
  from one [THEN conjunct1] have first: "Close demo_methods demo_Server [''a'', ''b'', ''c''] ?ch [] =
      (Returns None, demo_Server\<lparr>closeOnce := True\<rparr>, [1, 2, 3],
       [WithTimeout MaxCloseWaitTime,
       Go_Close ''a'' (Some 1), Select_ends ''a'' 0,
       Go_Close ''b'' (Some 2), Select_ends ''b'' 2000000000,
       Go_Close ''c'' (Some 3), Select_ends ''c'' 10000000000])"
    by (simp add: tryClose_demo)
  from one [THEN conjunct2] have again: "built demo_methods (demo_Server\<lparr>closeOnce := True\<rparr>)"
    unfolding first by simp
  have "closeOnce (demo_Server\<lparr>closeOnce := True\<rparr>) \<or>
      (\<forall>n\<in>set [''c'', ''a'', ''b'']. entries (demo_Server\<lparr>closeOnce := True\<rparr>) n \<noteq> Some None)"
    by simp
  from Close_returns_nil_on_built [OF again this, of None "[1, 2, 3]"]
  have "Close demo_methods (demo_Server\<lparr>closeOnce := True\<rparr>) [''c'', ''a'', ''b''] None [1, 2, 3] =
      (Returns None, demo_Server\<lparr>closeOnce := True\<rparr>, [1, 2, 3], [])"
    by (simp add: tryClose_done)
  with built_demo first again show ?thesis by blast
qed

text \<open>
  C3: the first call of \<^verbatim>\<open>Close\<close> does not close \<^verbatim>\<open>closeCh\<close>: on the example server
  the channel is nil before the call and nil after it, and a waiter on it is told
  nothing.
\<close>

theorem Close_leaves_closeCh_nil_counterexample:
  "closeCh demo_Server = None \<and>
   closeCh (fst (snd (Close demo_methods demo_Server [''a'', ''b'', ''c''] None []))) = None \<and>
   \<not> signalled (fst (snd (Close demo_methods demo_Server [''a'', ''b'', ''c''] None [])))"
  by (simp add: Close_demo closeCh_demo signalled_def)

text \<open>
  C3, as amended: on every server that can be built \<^verbatim>\<open>closeCh\<close> is nil, since no
  statement assigns it; the guard \<^verbatim>\<open>s.closeCh != nil\<close> then skips the
  \<^verbatim>\<open>close\<close>, so that no call of \<^verbatim>\<open>Close\<close>, the first or a later one, closes the
  channel or changes it, and the signal is never given.
\<close>

theorem closeCh_stays_nil:
  assumes "built M s"
  shows "closeCh s = None \<and> Close_closeCh s = Some s \<and>
         closeCh (fst (snd (Close M s order ch w))) = None \<and>
         \<not> signalled (fst (snd (Close M s order ch w))) \<and>
         closeCh (fst (Close_seq M s calls w)) = None"
proof -
  from built_fields [OF assms] have nil: "closeCh s = None" by simp
  then have skip: "Close_closeCh s = Some s"
    by (simp add: Close_closeCh_def)
  from nil Close_nil_closeCh(1) [OF nil, of M order ch w]
  have after: "closeCh (fst (snd (Close M s order ch w))) = None"
    by (simp add: closeCh_tryClose)
  then have "\<not> signalled (fst (snd (Close M s order ch w)))"
    by (simp add: signalled_def)
  with nil skip after closeCh_Close_seq [OF nil, of M calls w] show ?thesis by blast
qed

theorem closeCh_stays_nil_witness:
  "built demo_methods demo_Server \<and> closeCh demo_Server = None \<and>
   closeCh (fst (snd (Close demo_methods demo_Server [''a'', ''b'', ''c''] None []))) = None \<and>
   closeCh (fst (Close_seq demo_methods demo_Server
      [([''a'', ''b'', ''c''], None), ([''c'', ''a'', ''b''], None)] [])) = None"
  using closeCh_stays_nil [OF built_demo, of "[''a'', ''b'', ''c'']" None "[]"
      "[([''a'', ''b'', ''c''], None), ([''c'', ''a'', ''b''], None)]"] built_demo
  by simp

text \<open>
  C4: \<^verbatim>\<open>Register\<close> with a descriptor whose dynamic type is not \<^verbatim>\<open>*ServiceDesc\<close> returns
  the error "service desc type invalid", and no \<^verbatim>\<open>Register\<close> of an entry is called.
\<close>

theorem Register_invalid_desc:
  assumes "\<forall>desc. serviceDesc \<noteq> ServiceDesc_ptr desc"
  shows "Register M s order serviceDesc serviceImpl w =
           (Returns (Some (errors_New ''service desc type invalid'')), w, [])"
  using assms by (cases serviceDesc) (simp_all add: Register_def)

theorem Register_invalid_desc_witness:
  "(\<forall>desc. ServiceDesc_val \<lparr>ServiceName = ''greeter''\<rparr> \<noteq> ServiceDesc_ptr desc) \<and>
   Register demo_methods demo_Server [''a'', ''b'', ''c'']
       (ServiceDesc_val \<lparr>ServiceName = ''greeter''\<rparr>) nil_iface [] =
     (Returns (Some (errors_New ''service desc type invalid'')), [], [])"
  using Register_invalid_desc [of "ServiceDesc_val \<lparr>ServiceName = ''greeter''\<rparr>" demo_methods
      demo_Server "[''a'', ''b'', ''c'']" nil_iface "[]"]
  by simp

text \<open>
  C5: when the entries visited first have all accepted the registration and the next
  entry refuses it with an error, \<^verbatim>\<open>Register\<close> returns that very error; the entries
  after it in the order of the \<^verbatim>\<open>range\<close> get no call; the calls made before stay as
  they are, and nothing is called to undo them.
\<close>

theorem Register_fail_fast:
  assumes pre: "Register M s pre (ServiceDesc_ptr desc) serviceImpl w = (Returns None, w1, tr1)"
    and n: "entries s n = Some (Some srv)"
    and refuse: "svc_Register M srv (ServiceDesc_ptr desc) serviceImpl w1 = (Some err, w2)"
    and order: "distinct (pre @ n # post)"
  shows "Register M s (pre @ n # post) (ServiceDesc_ptr desc) serviceImpl w =
           (Returns (Some err), w2, tr1 @ [Call_Register n srv]) \<and>
         (\<forall>n'\<in>set post. \<forall>srv'. Call_Register n' srv' \<notin> set (tr1 @ [Call_Register n srv]))"
proof -
  from pre have run: "Register_range M (entries s) pre (ServiceDesc_ptr desc) serviceImpl w =
      (Returns None, w1, tr1)"
    by (simp add: Register_def)
  from n refuse have "Register_range M (entries s) (n # post) (ServiceDesc_ptr desc) serviceImpl w1 =
      (Returns (Some err), w2, [Call_Register n srv])"
    by simp
  with Register_range_append [OF run, of "n # post"]
  have res: "Register M s (pre @ n # post) (ServiceDesc_ptr desc) serviceImpl w =
      (Returns (Some err), w2, tr1 @ [Call_Register n srv])"
    by (simp add: Register_def)
  have "Call_Register n' srv' \<notin> set (tr1 @ [Call_Register n srv])" if "n' \<in> set post" for n' srv'
  proof
    assume "Call_Register n' srv' \<in> set (tr1 @ [Call_Register n srv])"
    then consider "Call_Register n' srv' \<in> set tr1" | "n' = n" by auto
    then show False
    proof cases
      case 1
      from Register_range_events [OF run 1] have "n' \<in> set pre" by simp
      with that order show False by auto
    next
      case 2
      with that order show False by simp
    qed
  qed
  with res show ?thesis by blast
qed

theorem Register_fail_fast_witness:
  "Register demo_methods demo_Server [''a''] (ServiceDesc_ptr None) nil_iface [] =
     (Returns None, [1], [Call_Register ''a'' 1]) \<and>
   entries demo_Server ''b'' = Some (Some 2) \<and>
   svc_Register demo_methods 2 (ServiceDesc_ptr None) nil_iface [1] = (Some (service_error 2), [1, 2]) \<and>
   distinct ([''a''] @ ''b'' # [''c'']) \<and>
   Register demo_methods demo_Server [''a'', ''b'', ''c''] (ServiceDesc_ptr None) nil_iface [] =
     (Returns (Some (service_error 2)), [1, 2], [Call_Register ''a'' 1, Call_Register ''b'' 2]) \<and>
   Call_Register ''c'' 3 \<notin> set [Call_Register ''a'' 1, Call_Register ''b'' (2::nat)]"
proof -
  have pre: "Register demo_methods demo_Server [''a''] (ServiceDesc_ptr None) nil_iface [] =
      (Returns None, [1], [Call_Register ''a'' 1])"
    by (simp add: demo_eval)
  have n: "entries demo_Server ''b'' = Some (Some 2)"
    by (simp add: demo_eval)
  have refuse: "svc_Register demo_methods 2 (ServiceDesc_ptr None) nil_iface [1] =
      (Some (service_error 2), [1, 2])"
    by (simp add: demo_methods_def)
  have order: "distinct ([''a''] @ ''b'' # [''c''])"
    by simp
  from Register_fail_fast [OF pre n refuse order] pre n refuse order show ?thesis
    by simp
qed

text \<open>
  C6: the wait of the closure is the greater of the configured \<^verbatim>\<open>MaxCloseWaitTime\<close> and
  the package constant of 10 seconds, as signed 64-bit numbers of nanoseconds; the
  context of the closure gets this timeout.
\<close>

theorem closeWaitTime_is_max:
  "sint (closeWaitTime s) = max (sint (cfg_MaxCloseWaitTime s)) (sint MaxCloseWaitTime) \<and>
   sint MaxCloseWaitTime = 10 * 1000000000 \<and>
   hd (snd (snd (tryClose_fn M s order w))) = WithTimeout (closeWaitTime s)"
  by (simp add: closeWaitTime_def word_sless_alt max_def tryClose_fn_trace sint_MaxCloseWaitTime)

text \<open>
  C7: a run of the closure is, in its result, its world and its record of calls, the run
  in which the names in \<^verbatim>\<open>failedServices\<close> are not visited at all. When no entry to be
  closed is nil, the run returns, the world it leaves is the one that the \<^verbatim>\<open>Close\<close>
  calls of exactly the visited entries that are not failed leave, made in the order of
  the \<^verbatim>\<open>range\<close>, and the goroutines it has started are those of exactly these entries.
\<close>

theorem tryClose_fn_closes_unfailed:
  "tryClose_fn M s order w =
     tryClose_fn M (s\<lparr>failedServices := {}\<rparr>) (filter (\<lambda>n. n \<notin> failedServices s) order) w \<and>
   ((\<forall>n\<in>set order. n \<in> failedServices s \<or> entries s n \<noteq> Some None) \<longrightarrow>
      fst (tryClose_fn M s order w) = Returns () \<and>
      fst (snd (tryClose_fn M s order w)) =
        foldl (\<lambda>w n. snd (svc_Close M (the (the (entries s n))) w)) w
          (filter (\<lambda>n. entries s n \<noteq> None \<and> n \<notin> failedServices s) order) \<and>
      Go_Closes (snd (snd (tryClose_fn M s order w))) =
        map (\<lambda>n. (n, the (entries s n)))
          (filter (\<lambda>n. entries s n \<noteq> None \<and> n \<notin> failedServices s) order))"
proof -
  let ?d = "nat (sint (closeWaitTime s))"
  have same: "entries (s\<lparr>failedServices := {}\<rparr>) = entries s"
    "closeWaitTime (s\<lparr>failedServices := {}\<rparr>) = closeWaitTime s"
    by (simp_all add: entries_def closeWaitTime_def)
  have skip: "tryClose_fn M s order w =
      tryClose_fn M (s\<lparr>failedServices := {}\<rparr>) (filter (\<lambda>n. n \<notin> failedServices s) order) w"
    using fn_range_failed [of M "entries s" "failedServices s" ?d order w]
    by (simp add: tryClose_fn_def same)
  have incl: "fst (tryClose_fn M s order w) = Returns () \<and>
      fst (snd (tryClose_fn M s order w)) =
        foldl (\<lambda>w n. snd (svc_Close M (the (the (entries s n))) w)) w
          (filter (\<lambda>n. entries s n \<noteq> None \<and> n \<notin> failedServices s) order) \<and>
      Go_Closes (snd (snd (tryClose_fn M s order w))) =
        map (\<lambda>n. (n, the (entries s n)))
          (filter (\<lambda>n. entries s n \<noteq> None \<and> n \<notin> failedServices s) order)"
    if nonil: "\<forall>n\<in>set order. n \<in> failedServices s \<or> entries s n \<noteq> Some None"
  proof -
    from nonil have "\<not> fst (fn_range M (entries s) (failedServices s) ?d order w)"
      by (auto simp: fn_range_panics)
    then have "fst (tryClose_fn M s order w) = Returns ()"
      by (simp add: tryClose_fn_def case_prod_unfold)
    moreover have "fst (snd (tryClose_fn M s order w)) =
        foldl (\<lambda>w n. snd (svc_Close M (the (the (entries s n))) w)) w
          (filter (\<lambda>n. entries s n \<noteq> None \<and> n \<notin> failedServices s) order)"
      using fn_range_world [OF nonil, of M ?d w] by (simp add: tryClose_fn_def case_prod_unfold)
    moreover have "Go_Closes (snd (snd (tryClose_fn M s order w))) =
        map (\<lambda>n. (n, the (entries s n)))
          (filter (\<lambda>n. entries s n \<noteq> None \<and> n \<notin> failedServices s) order)"
      using fn_range_Go_Closes [OF nonil, of M ?d w] by (simp add: tryClose_fn_trace)
    ultimately show ?thesis by blast
  qed
  from skip incl show ?thesis by blast
qed

theorem tryClose_fn_closes_unfailed_witness:
  "fst (tryClose_fn demo_methods (demo_Server\<lparr>failedServices := {''c''}\<rparr>) [''c'', ''a'', ''b''] []) =
     Returns () \<and>
   fst (snd (tryClose_fn demo_methods (demo_Server\<lparr>failedServices := {''c''}\<rparr>)
               [''c'', ''a'', ''b''] [])) = [1, 2] \<and>
   Go_Closes (snd (snd (tryClose_fn demo_methods (demo_Server\<lparr>failedServices := {''c''}\<rparr>)
               [''c'', ''a'', ''b''] []))) = [(''a'', Some 1), (''b'', Some 2)] \<and>
   tryClose_fn demo_methods (demo_Server\<lparr>failedServices := {''c''}\<rparr>) [''c'', ''a'', ''b''] [] =
     tryClose_fn demo_methods (demo_Server\<lparr>failedServices := {}\<rparr>) [''a'', ''b''] []"
  using tryClose_fn_closes_unfailed [of demo_methods "demo_Server\<lparr>failedServices := {''c''}\<rparr>"
      "[''c'', ''a'', ''b'']" "[]"]
  by (simp add: demo_eval)

text \<open>
  C8: \<^verbatim>\<open>AddService(name, e1)\<close> followed by \<^verbatim>\<open>AddService(name, e2)\<close> leaves the very
  server that \<^verbatim>\<open>AddService(name, e2)\<close> alone leaves, and \<^verbatim>\<open>Service(name)\<close> returns
  \<open>e2\<close>. When the \<^verbatim>\<open>range\<close> visits that name, \<^verbatim>\<open>Register\<close> calls the \<^verbatim>\<open>Register\<close>
  of \<open>e2\<close> and returns what it returns, and the closure calls the \<^verbatim>\<open>Close\<close> of
  \<open>e2\<close> unless the name is failed.
\<close>

theorem AddService_last_write_wins:
  "AddService (AddService s name e1) name e2 = AddService s name e2 \<and>
   Service (AddService (AddService s name e1) name e2) name = e2 \<and>
   Register M (AddService (AddService s name e1) name (Some e)) [name]
       (ServiceDesc_ptr desc) serviceImpl w =
     (Returns (fst (svc_Register M e (ServiceDesc_ptr desc) serviceImpl w)),
      snd (svc_Register M e (ServiceDesc_ptr desc) serviceImpl w),
      [Call_Register name e]) \<and>
   tryClose_fn M (AddService (AddService s name e1) name (Some e)) [name] w =
     (if name \<in> failedServices s then (Returns (), w, [WithTimeout (closeWaitTime s)])
      else (Returns (), snd (svc_Close M e w),
            [WithTimeout (closeWaitTime s), Go_Close name (Some e),
             Select_ends name
               (select_ends (nat (sint (closeWaitTime s))) (fst (svc_Close M e w)))]))"
proof -
  let ?s = "AddService (AddService s name e1) name (Some e)"
  have twice: "AddService (AddService s name e1) name e2 = AddService s name e2" for e2
    by (cases "services s") (simp_all add: AddService_def entries_def Let_def)
  have read: "Service (AddService (AddService s name e1) name e2) name = e2"
    by (simp add: Service_entries entries_AddService)
  have ent: "entries ?s name = Some (Some e)"
    by (simp add: entries_AddService)
  have same: "failedServices ?s = failedServices s" "closeWaitTime ?s = closeWaitTime s"
    by (simp_all add: AddService_def Let_def closeWaitTime_def)
  have reg: "Register M ?s [name] (ServiceDesc_ptr desc) serviceImpl w =
      (Returns (fst (svc_Register M e (ServiceDesc_ptr desc) serviceImpl w)),
       snd (svc_Register M e (ServiceDesc_ptr desc) serviceImpl w), [Call_Register name e])"
    using ent by (simp add: Register_def case_prod_unfold split: option.splits)
  have cls: "tryClose_fn M ?s [name] w =
      (if name \<in> failedServices s then (Returns (), w, [WithTimeout (closeWaitTime s)])
       else (Returns (), snd (svc_Close M e w),
             [WithTimeout (closeWaitTime s), Go_Close name (Some e),
              Select_ends name
                (select_ends (nat (sint (closeWaitTime s))) (fst (svc_Close M e w)))]))"
    using ent by (simp add: tryClose_fn_def same case_prod_unfold)
  from twice [of e2] read reg cls show ?thesis by blast
qed

text \<open>
  C9: \<^verbatim>\<open>Close\<close> does not always give control back: with a channel on which nothing
  takes the send, the call blocks at \<^verbatim>\<open>ch <- struct{}{}\<close> for ever.
\<close>

theorem Close_blocks_counterexample:
  "fst (Close demo_methods demo_Server [''a'', ''b'', ''c'']
          (Some \<lparr>chan_id = 7, chan_closed = False, chan_ready = False\<rparr>) []) = Blocks"
  by (simp add: Close_def Close_closeCh_demo Close_ack_def chan_now_def tryClose_demo closeCh_demo)

text \<open>
  C9, as amended: on a server that can be built, with a channel that is nil or takes the
  send and no nil entry for the closure to visit, \<^verbatim>\<open>Close\<close> returns, and on the logical
  clock of the model (statements take no time, so there is no scheduling noise) the
  wait of its closure ends no later than the greater of the configured
  \<^verbatim>\<open>MaxCloseWaitTime\<close> and the package constant, also when entries never signal; when
  the closure runs and closes an entry that never signals, the wait ends exactly then.
\<close>

theorem Close_returns_within_deadline:
  assumes "built M s"
    and "closeOnce s \<or> (\<forall>n\<in>set order. entries s n \<noteq> Some None)"
    and "ch = None \<or> (\<exists>c. ch = Some c \<and> \<not> chan_closed c \<and> chan_ready c)"
  shows "fst (Close M s order ch w) = Returns None \<and>
         elapsed (snd (snd (snd (Close M s order ch w)))) \<le>
           nat (max (sint (cfg_MaxCloseWaitTime s)) (sint MaxCloseWaitTime)) \<and>
         (\<not> closeOnce s \<and>
          (\<exists>n\<in>set order. \<exists>srv. entries s n = Some (Some srv) \<and>
             (\<forall>w. notify_after (fst (svc_Close M srv w)) = None)) \<longrightarrow>
          elapsed (snd (snd (snd (Close M s order ch w)))) =
            nat (max (sint (cfg_MaxCloseWaitTime s)) (sint MaxCloseWaitTime)))"
proof -
  let ?d = "nat (sint (closeWaitTime s))"
  let ?tr = "snd (snd (snd (Close M s order ch w)))"
  from built_fields [OF assms(1)] have nil: "closeCh s = None" and nofail: "failedServices s = {}"
    by simp_all
  from assms(2) have ents: "closeOnce s \<or>
      (\<forall>n\<in>set order. n \<in> failedServices s \<or> entries s n \<noteq> Some None)"
    by auto
  have d: "?d = nat (max (sint (cfg_MaxCloseWaitTime s)) (sint MaxCloseWaitTime))"
    by (simp add: closeWaitTime_def word_sless_alt max_def)
  from Close_returns_nil [OF nil ents assms(3), of M w]
  have ret: "fst (Close M s order ch w) = Returns None"
    and tr: "?tr = snd (snd (snd (tryClose M s order w)))"
    by simp_all
  have le: "elapsed ?tr \<le> ?d"
  proof (cases "closeOnce s")
    case True
    with tr show ?thesis by (simp add: tryClose_done)
  next
    case False
    with tr have "?tr = snd (snd (tryClose_fn M s order w))"
      by (simp add: tryClose_def case_prod_unfold)
    with elapsed_fn_range_le [of M "entries s" "failedServices s" ?d order w] show ?thesis
      by (simp add: tryClose_fn_trace)
  qed
  have eq: "elapsed ?tr = ?d"
    if "\<not> closeOnce s"
      and "\<exists>n\<in>set order. \<exists>srv. entries s n = Some (Some srv) \<and>
        (\<forall>w. notify_after (fst (svc_Close M srv w)) = None)"
  proof -
    from that(2) obtain n srv where n: "n \<in> set order" "entries s n = Some (Some srv)"
      and never: "\<forall>w. notify_after (fst (svc_Close M srv w)) = None"
      by blast
    from that(1) ents have nonil: "\<forall>n\<in>set order. n \<in> failedServices s \<or> entries s n \<noteq> Some None"
      by simp
    from nofail have "n \<notin> failedServices s" by simp
    from elapsed_fn_range_never [OF nonil n this never, of ?d w]
    have "elapsed (snd (snd (fn_range M (entries s) (failedServices s) ?d order w))) = ?d" .
    moreover from that(1) tr have "?tr = snd (snd (tryClose_fn M s order w))"
      by (simp add: tryClose_def case_prod_unfold)
    ultimately show ?thesis by (simp add: tryClose_fn_trace)
  qed
  from ret le eq show ?thesis unfolding d by blast
qed

theorem Close_returns_within_deadline_witness:
  "built demo_methods demo_Server \<and>
   fst (Close demo_methods demo_Server [''a'', ''b'', ''c''] None []) = Returns None \<and>
   elapsed (snd (snd (snd (Close demo_methods demo_Server [''a'', ''b'', ''c''] None [])))) = 10000000000 \<and>
   nat (max (sint (cfg_MaxCloseWaitTime demo_Server)) (sint MaxCloseWaitTime)) = 10000000000 \<and>
   \<not> closeOnce demo_Server \<and> entries demo_Server ''c'' = Some (Some 3) \<and>
   (\<forall>w. notify_after (fst (svc_Close demo_methods 3 w)) = None)"
proof -
  have ents: "closeOnce demo_Server \<or> (\<forall>n\<in>set [''a'', ''b'', ''c'']. entries demo_Server n \<noteq> Some None)"
    by (simp add: demo_eval)
  have d: "nat (max (sint (cfg_MaxCloseWaitTime demo_Server)) (sint MaxCloseWaitTime)) = 10000000000"
    by (simp add: demo_eval)
  have c: "\<not> closeOnce demo_Server" "entries demo_Server ''c'' = Some (Some 3)"
    "\<forall>w. notify_after (fst (svc_Close demo_methods 3 w)) = None"
    by (simp_all add: demo_eval)
  then have never: "\<not> closeOnce demo_Server \<and>
      (\<exists>n\<in>set [''a'', ''b'', ''c'']. \<exists>srv. entries demo_Server n = Some (Some srv) \<and>
         (\<forall>w. notify_after (fst (svc_Close demo_methods srv w)) = None))"
    by auto
  have ch: "(None :: chan option) = None \<or>
      (\<exists>c. (None :: chan option) = Some c \<and> \<not> chan_closed c \<and> chan_ready c)"
    by simp
  note run = Close_returns_within_deadline [OF built_demo ents ch, of "[]"]
  from run have ret: "fst (Close demo_methods demo_Server [''a'', ''b'', ''c''] None []) = Returns None"
    by (rule conjunct1)
  from run never
  have "elapsed (snd (snd (snd (Close demo_methods demo_Server [''a'', ''b'', ''c''] None [])))) =
      nat (max (sint (cfg_MaxCloseWaitTime demo_Server)) (sint MaxCloseWaitTime))"
    by blast
  with d ret
  have "fst (Close demo_methods demo_Server [''a'', ''b'', ''c''] None []) = Returns None"
    and "elapsed (snd (snd (snd (Close demo_methods demo_Server [''a'', ''b'', ''c''] None [])))) = 10000000000"
    by simp_all
  with built_demo d c show ?thesis by blast
qed

text \<open>
  C10: on a server whose map of services is nil, as on the zero value,
  \<^verbatim>\<open>Service\<close> returns nil for every name, and \<^verbatim>\<open>Register\<close> with a
  \<^verbatim>\<open>*ServiceDesc\<close> returns the nil error, calls no entry and does not panic.
\<close>

theorem nil_map_Service_Register_total:
  "Service (s\<lparr>services := None\<rparr>) name = None \<and>
   Register M (s\<lparr>services := None\<rparr>) order (ServiceDesc_ptr desc) serviceImpl w =
     (Returns None, w, []) \<and>
   Service (zero_Server :: 'e Server) name = None \<and>
   Register M (zero_Server :: 'e Server) order (ServiceDesc_ptr desc) serviceImpl w =
     (Returns None, w, [])"
  by (simp add: Service_def Register_def zero_Server_def entries_def Register_range_no_entries)

end
